theory Spec2Isabelle
  imports Complex_Main "HOL-Library.Stream"
begin

section \<open>Board model\<close>

text \<open>
  \<^verbatim>\<open>type SquareValue = "X" | "O" | null\<close>: a square is \<open>None\<close> (null) or holds a mark.
  The player always plays \<open>MarkX\<close> (the string \<^verbatim>\<open>"X"\<close>), the computer \<open>MarkO\<close> (\<^verbatim>\<open>"O"\<close>). A board is the array of squares;
  the component creates it with \<^verbatim>\<open>Array(9).fill(null)\<close>.
\<close>

datatype mark = MarkX | MarkO

type_synonym square = "mark option"

type_synonym board = "square list"

datatype difficulty = Easy | Medium | Hard

definition empty_board :: board where
  "empty_board = replicate 9 None"

text \<open>The constant \<^verbatim>\<open>lines\<close> of \<^verbatim>\<open>calculateWinner\<close> and \<^verbatim>\<open>findWinningMove\<close>
  (the same table in both): rows, columns, diagonals.\<close>

definition lines :: "(nat \<times> nat \<times> nat) list" where
  "lines = [(0, 1, 2), (3, 4, 5), (6, 7, 8),
            (0, 3, 6), (1, 4, 7), (2, 5, 8),
            (0, 4, 8), (2, 4, 6)]"

section \<open>Outcome evaluation\<close>

text \<open>
  \<^verbatim>\<open>calculateWinner\<close>: the loop over \<^verbatim>\<open>lines\<close> returns at the first line whose three
  squares hold the same non-null value; \<open>None\<close> is the \<^verbatim>\<open>null\<close> result.
\<close>

fun calculateWinner_loop :: "(nat \<times> nat \<times> nat) list \<Rightarrow> board \<Rightarrow> (mark \<times> (nat \<times> nat \<times> nat)) option" where
  "calculateWinner_loop [] squares = None"
| "calculateWinner_loop ((a, b, c) # rest) squares =
     (if squares ! a \<noteq> None \<and> squares ! a = squares ! b \<and> squares ! a = squares ! c
      then Some (the (squares ! a), (a, b, c))
      else calculateWinner_loop rest squares)"

definition calculateWinner :: "board \<Rightarrow> (mark \<times> (nat \<times> nat \<times> nat)) option" where
  "calculateWinner squares = calculateWinner_loop lines squares"

text \<open>
  The outcome as the status effect of the component computes it: a winner if
  \<^verbatim>\<open>calculateWinner\<close> finds one, else a draw if \<^verbatim>\<open>squares.every((square) => square !== null)\<close>,
  else the game goes on.
\<close>

datatype outcome = InProgress | Won mark "nat \<times> nat \<times> nat" | Draw

definition evaluate :: "board \<Rightarrow> outcome" where
  "evaluate squares =
     (case calculateWinner squares of
        Some (p, l) \<Rightarrow> Won p l
      | None \<Rightarrow> if list_all (\<lambda>square. square \<noteq> None) squares then Draw else InProgress)"

text \<open>A line is complete for a mark when its three squares all hold that mark.\<close>

definition line_complete :: "board \<Rightarrow> mark \<Rightarrow> nat \<times> nat \<times> nat \<Rightarrow> bool" where
  "line_complete squares m l =
     (case l of (a, b, c) \<Rightarrow> squares ! a = Some m \<and> squares ! b = Some m \<and> squares ! c = Some m)"

definition some_complete :: "board \<Rightarrow> nat \<times> nat \<times> nat \<Rightarrow> bool" where
  "some_complete squares l = (line_complete squares MarkX l \<or> line_complete squares MarkO l)"

section \<open>Scores\<close>

text \<open>
  The scores of the search are JavaScript numbers: integers, and the two start values
  \<^verbatim>\<open>Number.NEGATIVE_INFINITY\<close> and \<^verbatim>\<open>Number.POSITIVE_INFINITY\<close> of the loops.
  \<^verbatim>\<open>Math.max\<close>, \<^verbatim>\<open>Math.min\<close> and the comparison \<^verbatim>\<open>score > bestScore\<close> are those
  of the linear order below.
\<close>

datatype score = NegInf | Fin int | PosInf

instantiation score :: linorder
begin

fun less_eq_score :: "score \<Rightarrow> score \<Rightarrow> bool" where
  "less_eq_score NegInf b = True"
| "less_eq_score (Fin a) NegInf = False"
| "less_eq_score (Fin a) (Fin b) = (a \<le> b)"
| "less_eq_score (Fin a) PosInf = True"
| "less_eq_score PosInf NegInf = False"
| "less_eq_score PosInf (Fin b) = False"
| "less_eq_score PosInf PosInf = True"

definition less_score :: "score \<Rightarrow> score \<Rightarrow> bool" where
  "less_score a b = (a \<le> b \<and> \<not> b \<le> a)"

instance
proof
  fix x y z :: score
  show "(x < y) = (x \<le> y \<and> \<not> y \<le> x)" by (rule less_score_def)
  show "x \<le> x" by (cases x) auto
  show "x \<le> y \<Longrightarrow> y \<le> z \<Longrightarrow> x \<le> z" by (cases x; cases y; cases z) auto
  show "x \<le> y \<Longrightarrow> y \<le> x \<Longrightarrow> x = y" by (cases x; cases y) auto
  show "x \<le> y \<or> y \<le> x" by (cases x; cases y) auto
qed

end

section \<open>Move strategies\<close>

text \<open>
  \<^verbatim>\<open>findWinningMove(board, player)\<close>: the first line with two squares of \<open>player\<close> and
  one empty square gives its empty position; \<open>-1\<close> when there is no such line.
\<close>

fun findWinningMove_loop :: "(nat \<times> nat \<times> nat) list \<Rightarrow> board \<Rightarrow> mark \<Rightarrow> int" where
  "findWinningMove_loop [] board player = -1"
| "findWinningMove_loop ((a, b, c) # rest) board player =
     (if (board ! a = Some player \<and> board ! b = Some player \<and> board ! c = None) \<or>
         (board ! a = Some player \<and> board ! b = None \<and> board ! c = Some player) \<or>
         (board ! a = None \<and> board ! b = Some player \<and> board ! c = Some player)
      then (if board ! a = None then int a else if board ! b = None then int b else int c)
      else findWinningMove_loop rest board player)"

definition findWinningMove :: "board \<Rightarrow> mark \<Rightarrow> int" where
  "findWinningMove board player = findWinningMove_loop lines board player"

text \<open>
  \<^verbatim>\<open>Math.random()\<close> is modelled by a stream of reals: each call takes the head and
  leaves the tail. The caller supplies draws in \<open>[0, 1)\<close>.

  \<^verbatim>\<open>availableMoves\<close> is \<^verbatim>\<open>board.map((square, i) => (square === null ? i : -1)).filter((i) => i !== -1)\<close>.
  \<open>pickAvailableMove\<close> is the tail shared by \<^verbatim>\<open>makeEasyMove\<close> and \<^verbatim>\<open>makeMediumMove\<close>:
  a random element of \<^verbatim>\<open>availableMoves\<close>, or \<open>-1\<close> when there is none.
\<close>

definition availableMoves :: "board \<Rightarrow> int list" where
  "availableMoves board =
     filter (\<lambda>i. i \<noteq> -1)
       (map (\<lambda>(square, i). if square = None then int i else -1) (zip board [0..<length board]))"

definition pickAvailableMove :: "board \<Rightarrow> real stream \<Rightarrow> int" where
  "pickAvailableMove board rs =
     (if length (availableMoves board) > 0
      then availableMoves board ! nat \<lfloor>shd rs * real (length (availableMoves board))\<rfloor>
      else -1)"

definition makeEasyMove :: "board \<Rightarrow> real stream \<Rightarrow> int" where
  "makeEasyMove board rs =
     (if shd rs < 0.3 then
        (if findWinningMove board MarkO \<noteq> -1 then findWinningMove board MarkO
         else if shd (stl rs) < 0.5 then
           (if findWinningMove board MarkX \<noteq> -1 then findWinningMove board MarkX
            else pickAvailableMove board (stl (stl rs)))
         else pickAvailableMove board (stl (stl rs)))
      else pickAvailableMove board (stl rs))"

definition makeMediumMove :: "board \<Rightarrow> real stream \<Rightarrow> int" where
  "makeMediumMove board rs =
     (if findWinningMove board MarkO \<noteq> -1 then findWinningMove board MarkO
      else if findWinningMove board MarkX \<noteq> -1 then findWinningMove board MarkX
      else if board ! 4 = None then 4
      else if length (filter (\<lambda>i. board ! i = None) [0, 2, 6, 8]) > 0
      then int (filter (\<lambda>i. board ! i = None) [0, 2, 6, 8] !
                 nat \<lfloor>shd rs * real (length (filter (\<lambda>i. board ! i = None) [0, 2, 6, 8]))\<rfloor>)
      else pickAvailableMove board rs)"

subsection \<open>Minimax\<close>

text \<open>
  \<^verbatim>\<open>minimax(board, depth, isMaximizing)\<close> writes into the array it is given and erases
  what it wrote, so the model threads the board through: every function returns the
  board as it leaves it, with the score. The two \<^verbatim>\<open>for\<close> loops are
  \<open>minimax_max_loop\<close> and \<open>minimax_min_loop\<close>, with the loop counter \<open>i\<close> and the
  running \<^verbatim>\<open>bestScore\<close> as arguments.
\<close>

definition winner_is :: "board \<Rightarrow> mark \<Rightarrow> bool" where
  "winner_is board p =
     (case calculateWinner board of Some (player, l) \<Rightarrow> player = p | None \<Rightarrow> False)"

definition count_empty :: "board \<Rightarrow> nat" where
  "count_empty board = length (filter (\<lambda>cell. cell = None) board)"

function minimax :: "board \<Rightarrow> int \<Rightarrow> bool \<Rightarrow> board \<times> score"
  and minimax_max_loop :: "nat \<Rightarrow> board \<Rightarrow> int \<Rightarrow> score \<Rightarrow> board \<times> score"
  and minimax_min_loop :: "nat \<Rightarrow> board \<Rightarrow> int \<Rightarrow> score \<Rightarrow> board \<times> score"
where
  "minimax board depth isMaximizing =
     (if winner_is board MarkO then (board, Fin (10 - depth))
      else if winner_is board MarkX then (board, Fin (depth - 10))
      else if list_all (\<lambda>cell. cell \<noteq> None) board then (board, Fin 0)
      else if isMaximizing then minimax_max_loop 0 board depth NegInf
      else minimax_min_loop 0 board depth PosInf)"
| "minimax_max_loop i board depth bestScore =
     (if i < length board then
        (if board ! i = None then
           (case minimax (board[i := Some MarkO]) (depth + 1) False of
              (board', score) \<Rightarrow>
                minimax_max_loop (i + 1) (board'[i := None]) depth (max score bestScore))
         else minimax_max_loop (i + 1) board depth bestScore)
      else (board, bestScore))"
| "minimax_min_loop i board depth bestScore =
     (if i < length board then
        (if board ! i = None then
           (case minimax (board[i := Some MarkX]) (depth + 1) True of
              (board', score) \<Rightarrow>
                minimax_min_loop (i + 1) (board'[i := None]) depth (min score bestScore))
         else minimax_min_loop (i + 1) board depth bestScore)
      else (board, bestScore))"
  by pat_completeness auto

text \<open>
  The search terminates because every recursive call works on a board with one empty
  square fewer. The loops continue on the board the recursive call hands back, so the
  termination proof first needs that a call which returns hands its board back restored.
\<close>

lemma count_empty_update:
  "i < length board \<Longrightarrow> board ! i = None \<Longrightarrow> count_empty (board[i := Some m]) < count_empty board"
  unfolding count_empty_def
proof (induction board arbitrary: i)
  case Nil
  then show ?case by simp
next
  case (Cons c cs)
  show ?case
  proof (cases i)
    case 0
    with Cons.prems show ?thesis by (simp add: less_Suc_eq_le)
  next
    case (Suc n)
    with Cons.prems Cons.IH[of n] show ?thesis by simp
  qed
qed

lemma update_None_id:
  "board ! i = None \<Longrightarrow> board[i := None] = board"
  by (metis list_update_id)

lemma minimax_dom_frame:
  "minimax_minimax_max_loop_minimax_min_loop_dom (Inl (board, depth, isMaximizing)) \<Longrightarrow>
     fst (minimax board depth isMaximizing) = board"
  "minimax_minimax_max_loop_minimax_min_loop_dom (Inr (Inl (i, board, depth, bestScore))) \<Longrightarrow>
     fst (minimax_max_loop i board depth bestScore) = board"
  "minimax_minimax_max_loop_minimax_min_loop_dom (Inr (Inr (i, board, depth, bestScore))) \<Longrightarrow>
     fst (minimax_min_loop i board depth bestScore) = board"
proof (induction rule: minimax_minimax_max_loop_minimax_min_loop.pinduct)
  case (1 board depth isMaximizing)
  then show ?case by (simp add: minimax.psimps)
next
  case (2 i board depth bestScore)
  then show ?case
    by (auto simp: minimax_max_loop.psimps update_None_id split: prod.splits)
next
  case (3 i board depth bestScore)
  then show ?case
    by (auto simp: minimax_min_loop.psimps update_None_id split: prod.splits)
qed

termination minimax
  apply (relation "inv_image (less_than <*lex*> less_than <*lex*> less_than)
    (\<lambda>x. case x of
       Inl (board, depth, isMaximizing) \<Rightarrow> (count_empty board, 1::nat, 0::nat)
     | Inr (Inl (i, board, depth, bestScore)) \<Rightarrow> (count_empty board, 0, length board - i)
     | Inr (Inr (i, board, depth, bestScore)) \<Rightarrow> (count_empty board, 0, length board - i))")
  subgoal by auto
  subgoal by simp
  subgoal by simp
  subgoal by (simp add: count_empty_update)
  subgoal for i board depth bestScore x xa
  proof -
    assume a: "i < length board" "board ! i = None"
      "(x, xa) = minimax (board[i := Some MarkO]) (depth + 1) False"
      "minimax_minimax_max_loop_minimax_min_loop_dom (Inl (board[i := Some MarkO], depth + 1, False))"
    have "x = board[i := Some MarkO]"
      using minimax_dom_frame(1)[OF a(4)] a(3)[symmetric] by simp
    then have "x[i := None] = board"
      using a(2) by (simp add: update_None_id)
    then show ?thesis using a(1) by simp
  qed
  subgoal by auto
  subgoal by (simp add: count_empty_update)
  subgoal for i board depth bestScore x xa
  proof -
    assume a: "i < length board" "board ! i = None"
      "(x, xa) = minimax (board[i := Some MarkX]) (depth + 1) True"
      "minimax_minimax_max_loop_minimax_min_loop_dom (Inl (board[i := Some MarkX], depth + 1, True))"
    have "x = board[i := Some MarkX]"
      using minimax_dom_frame(1)[OF a(4)] a(3)[symmetric] by simp
    then have "x[i := None] = board"
      using a(2) by (simp add: update_None_id)
    then show ?thesis using a(1) by simp
  qed
  subgoal by auto
  done

declare minimax.simps [simp del] minimax_max_loop.simps [simp del] minimax_min_loop.simps [simp del]

lemma minimax_frame:
  "fst (minimax board depth isMaximizing) = board"
  "fst (minimax_max_loop i board depth bestScore) = board"
  "fst (minimax_min_loop i board depth bestScore) = board"
proof (induction board depth isMaximizing and i board depth bestScore and i board depth bestScore
       rule: minimax_minimax_max_loop_minimax_min_loop.induct)
  case (1 board depth isMaximizing)
  then show ?case by (simp add: minimax.simps)
next
  case (2 i board depth bestScore)
  show ?case
    using 2 by (subst minimax_max_loop.simps) (auto simp: update_None_id split: prod.splits)
next
  case (3 i board depth bestScore)
  show ?case
    using 3 by (subst minimax_min_loop.simps) (auto simp: update_None_id split: prod.splits)
qed

subsection \<open>The Hard strategy\<close>

text \<open>
  \<^verbatim>\<open>makeHardMove\<close> returns the move; the model returns with it the board as the call
  leaves it, since its loop writes into the array as \<^verbatim>\<open>minimax\<close> does.
  \<open>makeHardMove_loop\<close> is the \<^verbatim>\<open>for\<close> loop, with \<^verbatim>\<open>bestScore\<close> and \<^verbatim>\<open>bestMove\<close>
  as arguments.
\<close>

function makeHardMove_loop :: "nat \<Rightarrow> board \<Rightarrow> score \<Rightarrow> int \<Rightarrow> board \<times> int" where
  "makeHardMove_loop i board bestScore bestMove =
     (if i < length board then
        (if board ! i = None then
           (case minimax (board[i := Some MarkO]) 0 False of
              (board', score) \<Rightarrow>
                (if score > bestScore
                 then makeHardMove_loop (i + 1) (board'[i := None]) score (int i)
                 else makeHardMove_loop (i + 1) (board'[i := None]) bestScore bestMove))
         else makeHardMove_loop (i + 1) board bestScore bestMove)
      else (board, bestMove))"
  by pat_completeness auto

termination makeHardMove_loop
  apply (relation "measure (\<lambda>(i, board, bestScore, bestMove). length board - i)")
  subgoal by simp
  subgoal for i board bestScore bestMove x xa
    using minimax_frame(1)[of "board[i := Some MarkO]" 0 False]
    by (cases "minimax (board[i := Some MarkO]) 0 False") auto
  subgoal for i board bestScore bestMove x xa
    using minimax_frame(1)[of "board[i := Some MarkO]" 0 False]
    by (cases "minimax (board[i := Some MarkO]) 0 False") auto
  subgoal by auto
  done

declare makeHardMove_loop.simps [simp del]

definition makeHardMove :: "board \<Rightarrow> real stream \<Rightarrow> board \<times> int" where
  "makeHardMove board rs =
     (if length (filter (\<lambda>cell. cell = None) board) = 9 then (board, 4)
      else if length (filter (\<lambda>cell. cell = None) board) = 8 \<and> board ! 4 = Some MarkX
      then (board, [0, 2, 6, 8] ! nat \<lfloor>shd rs * 4\<rfloor>)
      else makeHardMove_loop 0 board NegInf (-1))"

section \<open>The game session\<close>

text \<open>
  The state of the component: the five \<^verbatim>\<open>useState\<close> cells.
\<close>

record session =
  squares :: board
  isPlayerTurn :: bool
  gameOver :: bool
  status :: string
  difficulty :: difficulty

definition initial_session :: session where
  "initial_session =
     \<lparr>squares = replicate 9 None, isPlayerTurn = True, gameOver = False,
      status = ''Your turn (X)'', difficulty = Medium\<rparr>"

definition handleClick :: "session \<Rightarrow> nat \<Rightarrow> session" where
  "handleClick s i =
     (if gameOver s \<or> squares s ! i \<noteq> None \<or> \<not> isPlayerTurn s then s
      else s\<lparr>squares := (squares s)[i := Some MarkX], isPlayerTurn := False\<rparr>)"

text \<open>
  \<^verbatim>\<open>makeComputerMove\<close> copies the board (\<^verbatim>\<open>squares.slice()\<close>), asks the strategy of the
  current difficulty for a move on the copy, writes \<^verbatim>\<open>"O"\<close> there unless the move is
  \<open>-1\<close>, and gives the turn back to the player.
\<close>

definition makeComputerMove :: "session \<Rightarrow> real stream \<Rightarrow> session" where
  "makeComputerMove s rs =
     (case (case difficulty s of
              Easy \<Rightarrow> (squares s, makeEasyMove (squares s) rs)
            | Medium \<Rightarrow> (squares s, makeMediumMove (squares s) rs)
            | Hard \<Rightarrow> makeHardMove (squares s) rs) of
        (newSquares, move) \<Rightarrow>
          (if move \<noteq> -1
           then s\<lparr>squares := newSquares[nat move := Some MarkO], isPlayerTurn := True\<rparr>
           else s\<lparr>isPlayerTurn := True\<rparr>))"

definition resetGame :: "session \<Rightarrow> session" where
  "resetGame s =
     s\<lparr>squares := replicate 9 None, isPlayerTurn := True, gameOver := False,
       status := ''Your turn (X)''\<rparr>"

definition handleDifficultyChange :: "session \<Rightarrow> difficulty \<Rightarrow> session" where
  "handleDifficultyChange s d = resetGame (s\<lparr>difficulty := d\<rparr>)"

text \<open>
  The status effect runs after every render in which the board, the turn or the winner
  changed: it ends the game on a win or a full board and sets the status text.
\<close>

definition status_effect :: "session \<Rightarrow> session" where
  "status_effect s =
     (case calculateWinner (squares s) of
        Some (player, l) \<Rightarrow>
          s\<lparr>gameOver := True,
            status := (if player = MarkX then ''You win!'' else ''Computer wins!'')\<rparr>
      | None \<Rightarrow>
          if list_all (\<lambda>square. square \<noteq> None) (squares s)
          then s\<lparr>gameOver := True, status := ''It's a draw!''\<rparr>
          else s\<lparr>status := (if isPlayerTurn s then ''Your turn (X)''
                             else ''Computer's turn (O)...'')\<rparr>)"

text \<open>
  The sessions a user can reach. Each event handler is followed by the status effect.
  The computer moves when the timer of the move effect fires, which the effect only
  sets when it is not the player's turn and the game is not over; the draws of
  \<^verbatim>\<open>Math.random()\<close> during that move are any reals in \<open>[0, 1)\<close>.
\<close>

inductive reachable :: "session \<Rightarrow> bool" where
  start: "reachable initial_session"
| click: "reachable s \<Longrightarrow> i < 9 \<Longrightarrow> reachable (status_effect (handleClick s i))"
| computer: "reachable s \<Longrightarrow> \<not> isPlayerTurn s \<Longrightarrow> \<not> gameOver s \<Longrightarrow>
     \<forall>r \<in> sset rs. 0 \<le> r \<and> r < 1 \<Longrightarrow>
     reachable (status_effect (makeComputerMove s rs))"
| reset: "reachable s \<Longrightarrow> reachable (status_effect (resetGame s))"
| change: "reachable s \<Longrightarrow> reachable (status_effect (handleDifficultyChange s d))"

section \<open>The outcome evaluator\<close>

lemma some_complete_iff:
  "some_complete board (a, b, c) \<longleftrightarrow>
     (board ! a \<noteq> None \<and> board ! a = board ! b \<and> board ! a = board ! c)"
proof (cases "board ! a")
  case None
  then show ?thesis by (simp add: some_complete_def line_complete_def)
next
  case (Some m)
  then show ?thesis
    by (cases m) (auto simp: some_complete_def line_complete_def)
qed

lemma calculateWinner_loop_Cons:
  "calculateWinner_loop ((a, b, c) # ks) board =
     (if some_complete board (a, b, c) then Some (the (board ! a), (a, b, c))
      else calculateWinner_loop ks board)"
  by (simp only: some_complete_iff calculateWinner_loop.simps)

lemma calculateWinner_loop_None:
  "calculateWinner_loop ls board = None \<longleftrightarrow> (\<forall>l \<in> set ls. \<not> some_complete board l)"
proof (induction ls)
  case Nil
  show ?case by simp
next
  case (Cons l ls)
  obtain a b c where l: "l = (a, b, c)" by (cases l) auto
  with Cons show ?case by (simp only: calculateWinner_loop_Cons) simp
qed

lemma calculateWinner_loop_Some:
  "calculateWinner_loop ls board = Some (m, l) \<longleftrightarrow>
     (\<exists>pre post. ls = pre @ l # post \<and> line_complete board m l \<and>
        (\<forall>l' \<in> set pre. \<not> some_complete board l'))"
proof (induction ls)
  case Nil
  show ?case by simp
next
  case (Cons k ks)
  obtain a b c where k: "k = (a, b, c)" by (cases k) auto
  have sc: "some_complete board k \<longleftrightarrow>
        (board ! a \<noteq> None \<and> board ! a = board ! b \<and> board ! a = board ! c)"
    unfolding k by (rule some_complete_iff)
  show ?case
  proof (cases "some_complete board k")
    case True
    then have lhs: "calculateWinner_loop (k # ks) board = Some (the (board ! a), k)"
      unfolding k by (simp only: calculateWinner_loop_Cons if_True)
    have lc: "line_complete board (the (board ! a)) k"
      using True sc unfolding line_complete_def k by auto
    show ?thesis
    proof
      assume "calculateWinner_loop (k # ks) board = Some (m, l)"
      with lhs have "m = the (board ! a)" "l = k" by simp_all
      with lc have "k # ks = [] @ l # ks \<and> line_complete board m l \<and>
                    (\<forall>l' \<in> set []. \<not> some_complete board l')" by simp
      then show "\<exists>pre post. k # ks = pre @ l # post \<and> line_complete board m l \<and>
                    (\<forall>l' \<in> set pre. \<not> some_complete board l')" by blast
    next
      assume "\<exists>pre post. k # ks = pre @ l # post \<and> line_complete board m l \<and>
                    (\<forall>l' \<in> set pre. \<not> some_complete board l')"
      then obtain pre post where p: "k # ks = pre @ l # post" "line_complete board m l"
          "\<forall>l' \<in> set pre. \<not> some_complete board l'" by blast
      have "pre = []"
      proof (cases pre)
        case Nil
        then show ?thesis .
      next
        case (Cons p ps)
        with p(1) have "p = k" by simp
        with p(3) Cons True show ?thesis by simp
      qed
      with p(1) have "l = k" by simp
      with p(2) have "board ! a = Some m" unfolding line_complete_def k by simp
      with lhs \<open>l = k\<close> show "calculateWinner_loop (k # ks) board = Some (m, l)" by simp
    qed
  next
    case False
    then have lhs: "calculateWinner_loop (k # ks) board = calculateWinner_loop ks board"
      unfolding k by (simp only: calculateWinner_loop_Cons if_False)
    have notl: "line_complete board m l \<Longrightarrow> l \<noteq> k" for m l
      using False unfolding some_complete_def by (cases m) auto
    show ?thesis
    proof
      assume "calculateWinner_loop (k # ks) board = Some (m, l)"
      with lhs Cons.IH obtain pre post where p: "ks = pre @ l # post" "line_complete board m l"
          "\<forall>l' \<in> set pre. \<not> some_complete board l'" by auto
      then have "k # ks = (k # pre) @ l # post \<and> line_complete board m l \<and>
          (\<forall>l' \<in> set (k # pre). \<not> some_complete board l')" using False by simp
      then show "\<exists>pre post. k # ks = pre @ l # post \<and> line_complete board m l \<and>
                    (\<forall>l' \<in> set pre. \<not> some_complete board l')" by blast
    next
      assume "\<exists>pre post. k # ks = pre @ l # post \<and> line_complete board m l \<and>
                    (\<forall>l' \<in> set pre. \<not> some_complete board l')"
      then obtain pre post where p: "k # ks = pre @ l # post" "line_complete board m l"
          "\<forall>l' \<in> set pre. \<not> some_complete board l'" by blast
      from notl[OF p(2)] p(1) obtain pre' where pre': "pre = k # pre'"
        by (cases pre) auto
      with p have "ks = pre' @ l # post \<and> line_complete board m l \<and>
          (\<forall>l' \<in> set pre'. \<not> some_complete board l')" by simp
      then have "calculateWinner_loop ks board = Some (m, l)" using Cons.IH by blast
      with lhs show "calculateWinner_loop (k # ks) board = Some (m, l)" by simp
    qed
  qed
qed

text \<open>
  C4. On every board of nine board (also one no game produces), the evaluator returns
  \<open>Won m l\<close> exactly when \<open>l\<close> is the first line of the fixed enumeration that is
  complete, and \<open>m\<close> is the mark on it; it returns \<open>Draw\<close> exactly when no line is
  complete and no square is empty; and \<open>InProgress\<close> exactly when no line is complete and
  some square is empty.
\<close>

theorem evaluate_spec:
  assumes "length board = 9"
  shows "(evaluate board = Won m l \<longleftrightarrow>
            (\<exists>pre post. lines = pre @ l # post \<and> line_complete board m l \<and>
               (\<forall>l' \<in> set pre. \<not> some_complete board l')))
       \<and> (evaluate board = Draw \<longleftrightarrow>
            (\<forall>l' \<in> set lines. \<not> some_complete board l') \<and> (\<forall>i < 9. board ! i \<noteq> None))
       \<and> (evaluate board = InProgress \<longleftrightarrow>
            (\<forall>l' \<in> set lines. \<not> some_complete board l') \<and> (\<exists>i < 9. board ! i = None))"
proof -
  have full: "list_all (\<lambda>square. square \<noteq> None) board \<longleftrightarrow> (\<forall>i < 9. board ! i \<noteq> None)"
    using assms by (simp add: list_all_length)
  have won: "evaluate board = Won m l \<longleftrightarrow> calculateWinner board = Some (m, l)"
    unfolding evaluate_def by (auto split: option.splits)
  have draw: "evaluate board = Draw \<longleftrightarrow>
      calculateWinner board = None \<and> list_all (\<lambda>square. square \<noteq> None) board"
    unfolding evaluate_def by (auto split: option.splits)
  have prog: "evaluate board = InProgress \<longleftrightarrow>
      calculateWinner board = None \<and> \<not> list_all (\<lambda>square. square \<noteq> None) board"
    unfolding evaluate_def by (auto split: option.splits)
  show ?thesis
    unfolding won draw prog full calculateWinner_def
      calculateWinner_loop_Some calculateWinner_loop_None
    by auto
qed

theorem evaluate_spec_witness:
  "length [Some MarkX, Some MarkX, Some MarkX, Some MarkO, Some MarkO, None, None, None, None] = 9
   \<and> evaluate [Some MarkX, Some MarkX, Some MarkX, Some MarkO, Some MarkO, None, None, None, None]
       = Won MarkX (0, 1, 2)"
proof -
  let ?b = "[Some MarkX, Some MarkX, Some MarkX, Some MarkO, Some MarkO, None, None, None, None]"
  have h: "length ?b = 9" by simp
  have "lines = [] @ (0, 1, 2) # tl lines \<and> line_complete ?b MarkX (0, 1, 2) \<and>
        (\<forall>l' \<in> set []. \<not> some_complete ?b l')"
    by (simp add: lines_def line_complete_def)
  then have "\<exists>pre post. lines = pre @ (0, 1, 2) # post \<and> line_complete ?b MarkX (0, 1, 2) \<and>
        (\<forall>l' \<in> set pre. \<not> some_complete ?b l')"
    by blast
  with evaluate_spec[OF h, of MarkX "(0, 1, 2)"] h show ?thesis by blast
qed

end
